theory Spec2Isabelle
  imports Main
begin

section \<open>Data model of \<open>event-sourcing.py\<close>\<close>

text \<open>
  Account ids and amounts are Python integers (unbounded), hence \<open>int\<close>. An event's
  \<open>data\<close> dictionary always has the two keys \<open>'id'\<close> and \<open>'amount'\<close> (every
  \<open>Event\<close> of the source is built by a command), so it is kept as two fields.
  The event type is the source's string.
\<close>

record Event =
  event_type :: string
  data_id :: int
  data_amount :: int
  event_version :: int

text \<open>
  A snapshot is the dictionary \<open>{'balance': ..., 'version': ...}\<close>; it is never empty,
  so Python's truth test \<open>if snapshot\<close> is the test for its presence.
\<close>

record Snapshot =
  snap_balance :: int
  snap_version :: int

record EventStore =
  events :: "Event list"
  snapshots :: "int \<rightharpoonup> Snapshot"

record AccountEntity =
  ent_account_id :: int
  ent_balance :: int
  ent_version :: int

record EntityStore =
  accounts :: "int \<rightharpoonup> AccountEntity"

record AccountAggregate =
  account_id :: int
  balance :: int
  version :: int

text \<open>
  The two concrete commands. The source's command objects also hold a reference to the
  event store; the saga and the example script always pass the command model's own
  store, and the embedding has this one store only.
\<close>

datatype Command = DepositCommand int int | WithdrawalCommand int int

fun cmd_account_id :: "Command \<Rightarrow> int" where
  "cmd_account_id (DepositCommand a n) = a"
| "cmd_account_id (WithdrawalCommand a n) = a"

fun cmd_amount :: "Command \<Rightarrow> int" where
  "cmd_amount (DepositCommand a n) = n"
| "cmd_amount (WithdrawalCommand a n) = n"

datatype error = InsufficientBalanceError | NameError

record CommandModel =
  event_store :: EventStore
  entity_store :: EntityStore
  version_counter :: int

section \<open>EventStore\<close>

definition add_event :: "Event \<Rightarrow> EventStore \<Rightarrow> EventStore" where
  "add_event event es = es\<lparr>events := events es @ [event]\<rparr>"

definition get_events :: "int \<Rightarrow> int \<Rightarrow> EventStore \<Rightarrow> Event list" where
  "get_events aggregate_id after_version es =
     filter (\<lambda>event. data_id event = aggregate_id \<and> event_version event > after_version)
       (events es)"

definition save_snapshot_es :: "int \<Rightarrow> Snapshot \<Rightarrow> EventStore \<Rightarrow> EventStore" where
  "save_snapshot_es aggregate_id snapshot es =
     es\<lparr>snapshots := (snapshots es)(aggregate_id \<mapsto> snapshot)\<rparr>"

definition get_snapshot :: "int \<Rightarrow> EventStore \<Rightarrow> Snapshot option" where
  "get_snapshot aggregate_id es = snapshots es aggregate_id"

section \<open>EntityStore\<close>

definition update_entity :: "int \<Rightarrow> int \<Rightarrow> int \<Rightarrow> EntityStore \<Rightarrow> EntityStore" where
  "update_entity aid bal ver st =
     st\<lparr>accounts := (accounts st)(aid \<mapsto>
        \<lparr>ent_account_id = aid, ent_balance = bal, ent_version = ver\<rparr>)\<rparr>"

definition query_entity :: "int \<Rightarrow> EntityStore \<Rightarrow> AccountEntity option" where
  "query_entity aid st = accounts st aid"

section \<open>AccountAggregate\<close>

definition new_aggregate :: "int \<Rightarrow> AccountAggregate" where
  "new_aggregate aid = \<lparr>account_id = aid, balance = 0, version = 0\<rparr>"

definition apply_event :: "AccountAggregate \<Rightarrow> Event \<Rightarrow> AccountAggregate" where
  "apply_event acc event =
     (let acc1 =
        (if event_type event = ''Deposit''
           then acc\<lparr>balance := balance acc + data_amount event\<rparr>
         else if event_type event = ''Withdrawal''
           then acc\<lparr>balance := balance acc - data_amount event\<rparr>
         else acc)
      in acc1\<lparr>version := event_version event\<rparr>)"

definition can_withdraw :: "AccountAggregate \<Rightarrow> int \<Rightarrow> bool" where
  "can_withdraw acc amount = (balance acc \<ge> amount)"

section \<open>Commands\<close>

fun execute :: "Command \<Rightarrow> int \<Rightarrow> EventStore \<Rightarrow> EventStore" where
  "execute (DepositCommand a n) v es =
     add_event \<lparr>event_type = ''Deposit'', data_id = a, data_amount = n, event_version = v\<rparr> es"
| "execute (WithdrawalCommand a n) v es =
     add_event \<lparr>event_type = ''Withdrawal'', data_id = a, data_amount = n, event_version = v\<rparr> es"

fun undo :: "Command \<Rightarrow> int \<Rightarrow> EventStore \<Rightarrow> EventStore" where
  "undo (DepositCommand a n) v es =
     add_event \<lparr>event_type = ''Withdrawal'', data_id = a, data_amount = n, event_version = v\<rparr> es"
| "undo (WithdrawalCommand a n) v es =
     add_event \<lparr>event_type = ''Deposit'', data_id = a, data_amount = n, event_version = v\<rparr> es"

section \<open>QueryModel\<close>

text \<open>
  \<open>rebuild_aggregate\<close> only reads the event store: the loop mutates the local
  aggregate, which is the accumulator of the fold.
\<close>

definition rebuild_aggregate :: "int \<Rightarrow> EventStore \<Rightarrow> AccountAggregate" where
  "rebuild_aggregate aid es =
     (let snapshot = get_snapshot aid es;
          ver = (case snapshot of Some sn \<Rightarrow> snap_version sn | None \<Rightarrow> 0);
          account = new_aggregate aid;
          account = (case snapshot of
                       Some sn \<Rightarrow> account\<lparr>balance := snap_balance sn, version := snap_version sn\<rparr>
                     | None \<Rightarrow> account);
          evs = get_events aid ver es
      in foldl apply_event account evs)"

definition save_snapshot :: "AccountAggregate \<Rightarrow> EventStore \<Rightarrow> EventStore" where
  "save_snapshot account es =
     save_snapshot_es (account_id account)
       \<lparr>snap_balance = balance account, snap_version = version account\<rparr> es"

section \<open>CommandModel\<close>

text \<open>
  A method that can raise returns the exception (\<open>Inl\<close>) or \<open>Inr ()\<close>, together with
  the state it leaves behind: Python keeps every write made before the raise.
\<close>

type_synonym outcome = "(error + unit) \<times> CommandModel"

definition init_model :: CommandModel where
  "init_model = \<lparr>event_store = \<lparr>events = [], snapshots = Map.empty\<rparr>,
                 entity_store = \<lparr>accounts = Map.empty\<rparr>,
                 version_counter = 0\<rparr>"

fun is_withdrawal :: "Command \<Rightarrow> bool" where
  "is_withdrawal (WithdrawalCommand a n) = True"
| "is_withdrawal (DepositCommand a n) = False"

definition execute_command :: "Command \<Rightarrow> CommandModel \<Rightarrow> outcome" where
  "execute_command command cm =
     (if is_withdrawal command \<and>
         \<not> can_withdraw (rebuild_aggregate (cmd_account_id command) (event_store cm))
                        (cmd_amount command)
      then (Inl InsufficientBalanceError, cm)
      else
        let cm1 = cm\<lparr>version_counter := version_counter cm + 1\<rparr>;
            cm2 = cm1\<lparr>event_store := execute command (version_counter cm1) (event_store cm1)\<rparr>;
            account = rebuild_aggregate (cmd_account_id command) (event_store cm2)
        in (Inr (), cm2\<lparr>entity_store :=
              update_entity (cmd_account_id command) (balance account) (version_counter cm2)
                (entity_store cm2)\<rparr>))"

text \<open>
  \<open>undo_command\<close> never assigns \<open>account\<close>, so the name is looked up among the module's
  globals. The parameter \<open>g\<close> is that binding: \<open>None\<close> when the module has no global
  \<open>account\<close> (the classes used as a library: Python raises \<open>NameError\<close>, after the
  counter and the log were written), \<open>Some a\<close> when a script has bound one (the example
  script binds it to earlier results of \<open>rebuild_aggregate\<close>), and then its \<open>balance\<close>
  attribute is what goes into the entity store.
\<close>

definition undo_command :: "AccountAggregate option \<Rightarrow> Command \<Rightarrow> CommandModel \<Rightarrow> outcome" where
  "undo_command g command cm =
     (let cm1 = cm\<lparr>version_counter := version_counter cm + 1\<rparr>;
          cm2 = cm1\<lparr>event_store := undo command (version_counter cm1) (event_store cm1)\<rparr>
      in case g of
           None \<Rightarrow> (Inl NameError, cm2)
         | Some account \<Rightarrow>
             (Inr (), cm2\<lparr>entity_store :=
                update_entity (cmd_account_id command) (balance account) (version_counter cm2)
                  (entity_store cm2)\<rparr>))"

section \<open>TransferSaga\<close>

text \<open>
  The saga object's own state is the list \<open>successful_commands\<close>; it is passed in and
  returned next to the command model.
\<close>

type_synonym saga_outcome = "(error + unit) \<times> Command list \<times> CommandModel"

fun undo_all :: "AccountAggregate option \<Rightarrow> Command list \<Rightarrow> CommandModel \<Rightarrow> outcome" where
  "undo_all g [] cm = (Inr (), cm)"
| "undo_all g (command # rest) cm =
     (case undo_command g command cm of
        (Inl e, cm') \<Rightarrow> (Inl e, cm')
      | (Inr u, cm') \<Rightarrow> undo_all g rest cm')"

definition compensate_transfer ::
  "AccountAggregate option \<Rightarrow> Command list \<Rightarrow> CommandModel \<Rightarrow> saga_outcome" where
  "compensate_transfer g successful_commands cm =
     (case undo_all g (rev successful_commands) cm of
        (Inl e, cm') \<Rightarrow> (Inl e, successful_commands, cm')
      | (Inr u, cm') \<Rightarrow> (Inr (), [], cm'))"

text \<open>The \<open>except\<close> block of \<open>start_transfer\<close>: compensate, then raise the caught error.\<close>

definition on_exception ::
  "AccountAggregate option \<Rightarrow> error \<Rightarrow> Command list \<Rightarrow> CommandModel \<Rightarrow> saga_outcome" where
  "on_exception g e successful_commands cm =
     (case compensate_transfer g successful_commands cm of
        (Inl e', sc', cm') \<Rightarrow> (Inl e', sc', cm')
      | (Inr u, sc', cm') \<Rightarrow> (Inl e, sc', cm'))"

definition start_transfer ::
  "AccountAggregate option \<Rightarrow> Command list \<Rightarrow> int \<Rightarrow> int \<Rightarrow> int \<Rightarrow> CommandModel \<Rightarrow> saga_outcome" where
  "start_transfer g successful_commands from_account_id to_account_id amount cm =
     (let withdrawal_command = WithdrawalCommand from_account_id amount;
          deposit_command = DepositCommand to_account_id amount
      in case execute_command withdrawal_command cm of
           (Inl e, cm1) \<Rightarrow> on_exception g e successful_commands cm1
         | (Inr u, cm1) \<Rightarrow>
             (let sc1 = successful_commands @ [withdrawal_command]
              in case execute_command deposit_command cm1 of
                   (Inl e, cm2) \<Rightarrow> on_exception g e sc1 cm2
                 | (Inr u, cm2) \<Rightarrow> (Inr (), sc1 @ [deposit_command], cm2)))"

section \<open>The query as a call on the system state\<close>

text \<open>
  \<open>QueryModel.rebuild_aggregate\<close> as the method call it is. The query model holds the
  event store that the command model holds; the system state is the command model with
  its two stores. Each statement of the method takes the system state and returns the
  state it leaves next to its value, so that a write made by the call would show in its
  result: \<open>get_snapshot\<close> is \<open>dict.get\<close>, \<open>get_events\<close> builds a new list, and the
  loop assigns to the fields of the local aggregate only.
\<close>

definition get_snapshot_call :: "int \<Rightarrow> CommandModel \<Rightarrow> Snapshot option \<times> CommandModel" where
  "get_snapshot_call aggregate_id cm = (snapshots (event_store cm) aggregate_id, cm)"

definition get_events_call :: "int \<Rightarrow> int \<Rightarrow> CommandModel \<Rightarrow> Event list \<times> CommandModel" where
  "get_events_call aggregate_id after_version cm =
     (filter (\<lambda>event. data_id event = aggregate_id \<and> event_version event > after_version)
        (events (event_store cm)), cm)"

fun apply_events :: "AccountAggregate \<Rightarrow> Event list \<Rightarrow> CommandModel \<Rightarrow> AccountAggregate \<times> CommandModel" where
  "apply_events account [] cm = (account, cm)"
| "apply_events account (event # rest) cm = apply_events (apply_event account event) rest cm"

definition rebuild_aggregate_call :: "int \<Rightarrow> CommandModel \<Rightarrow> AccountAggregate \<times> CommandModel" where
  "rebuild_aggregate_call aid cm =
     (case get_snapshot_call aid cm of
        (snapshot, cm1) \<Rightarrow>
          (let ver = (case snapshot of Some sn \<Rightarrow> snap_version sn | None \<Rightarrow> 0);
               account = new_aggregate aid;
               account = (case snapshot of
                            Some sn \<Rightarrow> account\<lparr>balance := snap_balance sn, version := snap_version sn\<rparr>
                          | None \<Rightarrow> account)
           in case get_events_call aid ver cm1 of
                (evs, cm2) \<Rightarrow> apply_events account evs cm2))"

section \<open>Vocabulary of the properties\<close>

text \<open>
  The signed amount an event contributes to the balance in \<open>apply_event\<close>, the
  version \<open>rebuild_aggregate\<close> replays from, and the aggregate it starts with.
\<close>

definition event_delta :: "Event \<Rightarrow> int" where
  "event_delta event =
     (if event_type event = ''Deposit'' then data_amount event
      else if event_type event = ''Withdrawal'' then - data_amount event
      else 0)"

definition replay_start :: "int \<Rightarrow> EventStore \<Rightarrow> int" where
  "replay_start aid es = (case get_snapshot aid es of Some sn \<Rightarrow> snap_version sn | None \<Rightarrow> 0)"

definition snapshot_base :: "int \<Rightarrow> EventStore \<Rightarrow> AccountAggregate" where
  "snapshot_base aid es =
     (case get_snapshot aid es of
        None \<Rightarrow> new_aggregate aid
      | Some sn \<Rightarrow> \<lparr>account_id = aid, balance = snap_balance sn, version = snap_version sn\<rparr>)"

text \<open>The event a command appends on \<open>execute\<close>, and the one it appends on \<open>undo\<close>.\<close>

fun forward_event :: "Command \<Rightarrow> int \<Rightarrow> Event" where
  "forward_event (DepositCommand a n) v =
     \<lparr>event_type = ''Deposit'', data_id = a, data_amount = n, event_version = v\<rparr>"
| "forward_event (WithdrawalCommand a n) v =
     \<lparr>event_type = ''Withdrawal'', data_id = a, data_amount = n, event_version = v\<rparr>"

fun inverse_event :: "Command \<Rightarrow> int \<Rightarrow> Event" where
  "inverse_event (DepositCommand a n) v =
     \<lparr>event_type = ''Withdrawal'', data_id = a, data_amount = n, event_version = v\<rparr>"
| "inverse_event (WithdrawalCommand a n) v =
     \<lparr>event_type = ''Deposit'', data_id = a, data_amount = n, event_version = v\<rparr>"

text \<open>
  The version counter is not behind the version an account is replayed from. Every
  state in \<open>reachable\<close> below has this property (\<open>reachable_counter_ahead\<close>).
\<close>

definition counter_ahead :: "int \<Rightarrow> CommandModel \<Rightarrow> bool" where
  "counter_ahead aid cm = (replay_start aid (event_store cm) \<le> version_counter cm)"

text \<open>
  A caller that submits commands one after the other and goes on after a rejection, as
  the example script does; it returns the accepted commands and the final state.
\<close>

fun run_commands :: "Command list \<Rightarrow> CommandModel \<Rightarrow> Command list \<times> CommandModel" where
  "run_commands [] cm = ([], cm)"
| "run_commands (c # cs) cm =
     (case execute_command c cm of
        (Inl e, cm') \<Rightarrow> run_commands cs cm'
      | (Inr u, cm') \<Rightarrow> (case run_commands cs cm' of (acc, cm'') \<Rightarrow> (c # acc, cm'')))"

fun deposit_sum :: "int \<Rightarrow> Command list \<Rightarrow> int" where
  "deposit_sum a [] = 0"
| "deposit_sum a (DepositCommand b n # cs) = (if b = a then n else 0) + deposit_sum a cs"
| "deposit_sum a (WithdrawalCommand b n # cs) = deposit_sum a cs"

fun withdrawal_sum :: "int \<Rightarrow> Command list \<Rightarrow> int" where
  "withdrawal_sum a [] = 0"
| "withdrawal_sum a (DepositCommand b n # cs) = withdrawal_sum a cs"
| "withdrawal_sum a (WithdrawalCommand b n # cs) = (if b = a then n else 0) + withdrawal_sum a cs"

text \<open>The same store with the snapshot table emptied, and with more events appended.\<close>

definition without_snapshots :: "EventStore \<Rightarrow> EventStore" where
  "without_snapshots es = es\<lparr>snapshots := Map.empty\<rparr>"

definition append_events :: "Event list \<Rightarrow> EventStore \<Rightarrow> EventStore" where
  "append_events later es = foldl (\<lambda>s e. add_event e s) es later"

text \<open>Concrete states used below.\<close>

definition after_deposit :: CommandModel where
  "after_deposit = snd (execute_command (DepositCommand 1 150) init_model)"

definition snapshot_then_withdraw :: CommandModel where
  "snapshot_then_withdraw =
     snd (execute_command (WithdrawalCommand 1 50)
       (after_deposit\<lparr>event_store :=
          save_snapshot (rebuild_aggregate 1 (event_store after_deposit))
            (event_store after_deposit)\<rparr>))"

definition funded_model :: CommandModel where
  "funded_model = snd (execute_command (DepositCommand 1 100) init_model)"

definition first_transfer :: saga_outcome where
  "first_transfer = start_transfer None [] 1 2 50 funded_model"

text \<open>
  The states of the command model that calls of \<open>execute_command\<close>, \<open>undo_command\<close>
  and \<open>QueryModel.save_snapshot\<close> (applied to a rebuilt aggregate) produce from the
  initial one, and the bound on versions they all satisfy.
\<close>

inductive reachable :: "CommandModel \<Rightarrow> bool" where
  start: "reachable init_model"
| executed: "reachable cm \<Longrightarrow> reachable (snd (execute_command c cm))"
| undone: "reachable cm \<Longrightarrow> reachable (snd (undo_command g c cm))"
| snapshotted: "reachable cm \<Longrightarrow>
     reachable (cm\<lparr>event_store :=
        save_snapshot (rebuild_aggregate a (event_store cm)) (event_store cm)\<rparr>)"

definition versions_bounded :: "CommandModel \<Rightarrow> bool" where
  "versions_bounded cm =
     (0 \<le> version_counter cm
      \<and> (\<forall>e \<in> set (events (event_store cm)). event_version e \<le> version_counter cm)
      \<and> (\<forall>a sn. snapshots (event_store cm) a = Some sn \<longrightarrow> snap_version sn \<le> version_counter cm))"

section \<open>Replay lemmas\<close>

lemma balance_apply_event: "balance (apply_event acc event) = balance acc + event_delta event"
  by (simp add: apply_event_def event_delta_def)

lemma balance_foldl: "balance (foldl apply_event acc evs) = balance acc + sum_list (map event_delta evs)"
  by (induction evs arbitrary: acc) (simp_all add: balance_apply_event)

lemma account_id_apply_event: "account_id (apply_event acc event) = account_id acc"
  by (simp add: apply_event_def)

lemma account_id_foldl: "account_id (foldl apply_event acc evs) = account_id acc"
  by (induction evs arbitrary: acc) (simp_all add: account_id_apply_event)

lemma rebuild_unfold: "rebuild_aggregate a es =
   foldl apply_event (snapshot_base a es) (get_events a (replay_start a es) es)"
  by (simp add: rebuild_aggregate_def snapshot_base_def replay_start_def new_aggregate_def split: option.splits)

lemma account_id_rebuild: "account_id (rebuild_aggregate a es) = a"
  by (simp add: rebuild_unfold account_id_foldl snapshot_base_def new_aggregate_def split: option.splits)

lemma get_events_add_event:
  "get_events a v (add_event e es) =
     get_events a v es @ (if data_id e = a \<and> v < event_version e then [e] else [])"
  by (simp add: get_events_def add_event_def)

lemma get_snapshot_add_event: "get_snapshot a (add_event e es) = get_snapshot a es"
  by (simp add: get_snapshot_def add_event_def)

lemma replay_start_add_event: "replay_start a (add_event e es) = replay_start a es"
  by (simp add: replay_start_def get_snapshot_add_event)

lemma snapshot_base_add_event: "snapshot_base a (add_event e es) = snapshot_base a es"
  by (simp add: snapshot_base_def get_snapshot_add_event)

lemma rebuild_add_event:
  "rebuild_aggregate a (add_event e es) =
     (if data_id e = a \<and> replay_start a es < event_version e
      then apply_event (rebuild_aggregate a es) e else rebuild_aggregate a es)"
  by (simp add: rebuild_unfold get_events_add_event replay_start_add_event snapshot_base_add_event)

lemma execute_add_event: "execute c v es = add_event (forward_event c v) es"
  by (cases c) simp_all

lemma undo_add_event: "undo c v es = add_event (inverse_event c v) es"
  by (cases c) simp_all

lemma forward_event_fields:
  "data_id (forward_event c v) = cmd_account_id c"
  "event_version (forward_event c v) = v"
  "event_delta (forward_event c v) = (if is_withdrawal c then - cmd_amount c else cmd_amount c)"
  by (cases c; simp add: event_delta_def)+

lemma inverse_event_fields:
  "data_id (inverse_event c v) = cmd_account_id c"
  "event_version (inverse_event c v) = v"
  "event_delta (inverse_event c v) = (if is_withdrawal c then cmd_amount c else - cmd_amount c)"
  by (cases c; simp add: event_delta_def)+

lemma rebuild_execute_other:
  "cmd_account_id c \<noteq> b \<Longrightarrow> rebuild_aggregate b (execute c v es) = rebuild_aggregate b es"
  by (simp add: execute_add_event rebuild_add_event forward_event_fields)

lemma rebuild_undo_other:
  "cmd_account_id c \<noteq> b \<Longrightarrow> rebuild_aggregate b (undo c v es) = rebuild_aggregate b es"
  by (simp add: undo_add_event rebuild_add_event inverse_event_fields)

lemma balance_rebuild_execute:
  "replay_start (cmd_account_id c) es < v \<Longrightarrow>
   balance (rebuild_aggregate (cmd_account_id c) (execute c v es)) =
   balance (rebuild_aggregate (cmd_account_id c) es) + (if is_withdrawal c then - cmd_amount c else cmd_amount c)"
  by (simp add: execute_add_event rebuild_add_event forward_event_fields balance_apply_event)

lemma balance_rebuild_undo:
  "replay_start (cmd_account_id c) es < v \<Longrightarrow>
   balance (rebuild_aggregate (cmd_account_id c) (undo c v es)) =
   balance (rebuild_aggregate (cmd_account_id c) es) + (if is_withdrawal c then cmd_amount c else - cmd_amount c)"
  by (simp add: undo_add_event rebuild_add_event inverse_event_fields balance_apply_event)

lemma replay_start_execute: "replay_start a (execute c v es) = replay_start a es"
  by (simp add: execute_add_event replay_start_add_event)

lemma replay_start_undo: "replay_start a (undo c v es) = replay_start a es"
  by (simp add: undo_add_event replay_start_add_event)

lemma execute_command_rejected:
  "is_withdrawal c \<Longrightarrow> balance (rebuild_aggregate (cmd_account_id c) (event_store cm)) < cmd_amount c \<Longrightarrow>
   execute_command c cm = (Inl InsufficientBalanceError, cm)"
  by (simp add: execute_command_def can_withdraw_def)

lemma execute_command_accepted:
  "\<not> (is_withdrawal c \<and> balance (rebuild_aggregate (cmd_account_id c) (event_store cm)) < cmd_amount c) \<Longrightarrow>
   execute_command c cm =
     (Inr (), \<lparr>event_store = execute c (version_counter cm + 1) (event_store cm),
               entity_store = update_entity (cmd_account_id c)
                 (balance (rebuild_aggregate (cmd_account_id c)
                    (execute c (version_counter cm + 1) (event_store cm))))
                 (version_counter cm + 1) (entity_store cm),
               version_counter = version_counter cm + 1\<rparr>)"
  by (auto simp add: execute_command_def can_withdraw_def Let_def)

lemma undo_command_unbound:
  "undo_command None c cm =
     (Inl NameError, \<lparr>event_store = undo c (version_counter cm + 1) (event_store cm),
                      entity_store = entity_store cm,
                      version_counter = version_counter cm + 1\<rparr>)"
  by (simp add: undo_command_def Let_def)

lemma undo_command_bound:
  "undo_command (Some acc) c cm =
     (Inr (), \<lparr>event_store = undo c (version_counter cm + 1) (event_store cm),
               entity_store = update_entity (cmd_account_id c) (balance acc)
                 (version_counter cm + 1) (entity_store cm),
               version_counter = version_counter cm + 1\<rparr>)"
  by (simp add: undo_command_def Let_def)

lemma execute_command_cases:
  "execute_command c cm = (Inl InsufficientBalanceError, cm) \<or>
   (\<exists>ent. execute_command c cm = (Inr (), \<lparr>event_store = execute c (version_counter cm + 1) (event_store cm),
               entity_store = ent, version_counter = version_counter cm + 1\<rparr>))"
  by (cases "is_withdrawal c \<and> balance (rebuild_aggregate (cmd_account_id c) (event_store cm)) < cmd_amount c")
     (auto simp: execute_command_rejected execute_command_accepted)

lemma accounts_update_entity_other:
  "a \<noteq> b \<Longrightarrow> query_entity b (update_entity a bal v st) = query_entity b st"
  by (simp add: query_entity_def update_entity_def)

lemma get_snapshot_execute: "get_snapshot b (execute c v es) = get_snapshot b es"
  by (simp add: execute_add_event get_snapshot_add_event)

lemma get_snapshot_undo: "get_snapshot b (undo c v es) = get_snapshot b es"
  by (simp add: undo_add_event get_snapshot_add_event)

lemma counter_ahead_execute_command:
  "counter_ahead a cm \<Longrightarrow> counter_ahead a (snd (execute_command c cm))"
  using execute_command_cases [of c cm]
  by (auto simp: counter_ahead_def replay_start_execute)

lemma balance_after_accepted:
  assumes "counter_ahead a cm" and "execute_command c cm = (Inr u, cm')"
  shows "balance (rebuild_aggregate a (event_store cm')) =
         balance (rebuild_aggregate a (event_store cm)) + deposit_sum a [c] - withdrawal_sum a [c]"
proof -
  from assms(2) have acc: "\<not> (is_withdrawal c \<and> balance (rebuild_aggregate (cmd_account_id c) (event_store cm)) < cmd_amount c)"
    using execute_command_rejected [of c cm] by auto
  have es: "event_store cm' = execute c (version_counter cm + 1) (event_store cm)"
    using assms(2) execute_command_accepted [OF acc] by auto
  show ?thesis
  proof (cases "cmd_account_id c = a")
    case True
    with assms(1) have "replay_start (cmd_account_id c) (event_store cm) < version_counter cm + 1"
      by (simp add: counter_ahead_def)
    from balance_rebuild_execute [OF this] True show ?thesis
      by (cases c) (simp_all add: es)
  next
    case False
    then have same: "rebuild_aggregate a (event_store cm') = rebuild_aggregate a (event_store cm)"
      by (simp add: es rebuild_execute_other)
    from False have "deposit_sum a [c] = 0 \<and> withdrawal_sum a [c] = 0"
      by (cases c) simp_all
    with same show ?thesis by simp
  qed
qed

lemma run_commands_balance:
  "counter_ahead a cm \<Longrightarrow>
   balance (rebuild_aggregate a (event_store (snd (run_commands cs cm)))) =
   balance (rebuild_aggregate a (event_store cm))
     + deposit_sum a (fst (run_commands cs cm)) - withdrawal_sum a (fst (run_commands cs cm))"
proof (induction cs arbitrary: cm)
  case Nil
  then show ?case by simp
next
  case (Cons c cs)
  obtain r cm' where step: "execute_command c cm = (r, cm')" by (cases "execute_command c cm")
  have ahead: "counter_ahead a cm'"
    using counter_ahead_execute_command [OF Cons.prems, of c] step by simp
  show ?case
  proof (cases r)
    case (Inl e)
    then have "cm' = cm" using step execute_command_cases [of c cm] by auto
    with Inl step Cons.IH [OF Cons.prems] show ?thesis by simp
  next
    case (Inr u)
    have one: "balance (rebuild_aggregate a (event_store cm')) =
         balance (rebuild_aggregate a (event_store cm)) + deposit_sum a [c] - withdrawal_sum a [c]"
      using balance_after_accepted [OF Cons.prems] step Inr by simp
    obtain acc cm'' where rest: "run_commands cs cm' = (acc, cm'')" by (cases "run_commands cs cm'")
    have "balance (rebuild_aggregate a (event_store cm'')) =
          balance (rebuild_aggregate a (event_store cm')) + deposit_sum a acc - withdrawal_sum a acc"
      using Cons.IH [OF ahead] rest by simp
    with one show ?thesis using step Inr rest by (cases c) simp_all
  qed
qed

lemma counter_ahead_run: "counter_ahead a cm \<Longrightarrow> counter_ahead a (snd (run_commands cs cm))"
proof (induction cs arbitrary: cm)
  case Nil
  then show ?case by simp
next
  case (Cons c cs)
  have "counter_ahead a (snd (execute_command c cm))"
    by (rule counter_ahead_execute_command [OF Cons.prems])
  from Cons.IH [OF this] show ?case
    by (cases "execute_command c cm") (auto split: sum.splits prod.splits)
qed

lemma counter_ahead_init: "counter_ahead a init_model"
  by (simp add: counter_ahead_def replay_start_def get_snapshot_def init_model_def)

lemma init_balance: "balance (rebuild_aggregate a (event_store init_model)) = 0"
  by (simp add: rebuild_unfold snapshot_base_def replay_start_def get_snapshot_def get_events_def init_model_def new_aggregate_def)

lemma accepted_withdrawal_nonneg:
  assumes "counter_ahead a cm" and "execute_command (WithdrawalCommand a n) cm = (Inr u, cm')"
  shows "0 \<le> balance (rebuild_aggregate a (event_store cm'))"
proof -
  have "\<not> balance (rebuild_aggregate a (event_store cm)) < n"
    using assms(2) execute_command_rejected [of "WithdrawalCommand a n" cm] by auto
  moreover have "balance (rebuild_aggregate a (event_store cm')) =
         balance (rebuild_aggregate a (event_store cm)) - n"
    using balance_after_accepted [OF assms] by simp
  ultimately show ?thesis by simp
qed

lemma version_apply_event: "version (apply_event acc event) = event_version event"
  by (simp add: apply_event_def)

lemma version_foldl:
  "version (foldl apply_event acc evs) = (if evs = [] then version acc else event_version (last evs))"
  by (induction evs arbitrary: acc) (simp_all add: version_apply_event)

lemma events_append_events: "events (append_events later es) = events es @ later"
  by (induction later arbitrary: es) (simp_all add: append_events_def add_event_def)

lemma snapshots_append_events: "snapshots (append_events later es) = snapshots es"
  by (induction later arbitrary: es) (simp_all add: append_events_def add_event_def)

lemma from_zero_unfold:
  "rebuild_aggregate a (without_snapshots es) =
     foldl apply_event (new_aggregate a) (filter (\<lambda>e. data_id e = a \<and> 0 < event_version e) (events es))"
  by (simp add: rebuild_unfold snapshot_base_def replay_start_def get_snapshot_def get_events_def
        without_snapshots_def)

lemma strict_no_later:
  assumes inc: "sorted_wrt (<) (map event_version xs)"
  shows "filter (\<lambda>e. P e \<and> event_version (last (filter P xs)) < event_version e) xs = []"
  using inc
proof (induction xs rule: rev_induct)
  case Nil
  then show ?case by simp
next
  case (snoc x xs)
  have inc': "sorted_wrt (<) (map event_version xs)"
    and below: "\<forall>e \<in> set xs. event_version e < event_version x"
    using snoc.prems by (auto simp: sorted_wrt_append)
  show ?case
  proof (cases "P x")
    case True
    then have "last (filter P (xs @ [x])) = x" by simp
    then show ?thesis using below by (auto simp: filter_empty_conv)
  next
    case False
    then have "filter P (xs @ [x]) = filter P xs" by simp
    then show ?thesis using snoc.IH [OF inc'] False by simp
  qed
qed

lemma replay_after_snapshot:
  fixes a :: int
  assumes inc: "sorted_wrt (<) (map event_version (pre @ later))"
  defines "P \<equiv> (\<lambda>e. data_id e = a \<and> 0 < event_version e)"
  defines "R \<equiv> foldl apply_event (new_aggregate a) (filter P pre)"
  shows "filter (\<lambda>e. data_id e = a \<and> version R < event_version e) (pre @ later) = filter P later"
proof (cases "filter P pre = []")
  case True
  then have "version R = 0" by (simp add: R_def version_foldl new_aggregate_def)
  then show ?thesis using True by (simp add: P_def)
next
  case False
  define l where "l = last (filter P pre)"
  have V: "version R = event_version l" using False by (simp add: R_def version_foldl l_def)
  have "l \<in> set (filter P pre)" unfolding l_def using False by (rule last_in_set)
  then have l_pre: "l \<in> set pre" and l_pos: "0 < event_version l" by (auto simp: P_def)
  have inc_pre: "sorted_wrt (<) (map event_version pre)"
    and above: "\<forall>x \<in> set pre. \<forall>y \<in> set later. event_version x < event_version y"
    using inc by (auto simp: sorted_wrt_append)
  have "filter (\<lambda>e. P e \<and> event_version l < event_version e) pre = []"
    unfolding l_def by (rule strict_no_later [OF inc_pre])
  moreover have "(\<lambda>e. data_id e = a \<and> event_version l < event_version e) =
                 (\<lambda>e. P e \<and> event_version l < event_version e)"
    using l_pos by (auto simp: P_def)
  ultimately have pre_none: "filter (\<lambda>e. data_id e = a \<and> event_version l < event_version e) pre = []"
    by simp
  have "\<forall>y \<in> set later. event_version l < event_version y" using above l_pre by blast
  then have "filter (\<lambda>e. data_id e = a \<and> event_version l < event_version e) later = filter P later"
    using l_pos by (intro filter_cong) (auto simp: P_def)
  with pre_none show ?thesis by (simp add: V)
qed

lemma rebuild_saved_snapshot:
  "rebuild_aggregate a (append_events later (save_snapshot R es)) =
     (if account_id R = a
      then foldl apply_event \<lparr>account_id = a, balance = balance R, version = version R\<rparr>
             (filter (\<lambda>e. data_id e = a \<and> version R < event_version e) (events es @ later))
      else rebuild_aggregate a (append_events later es))"
  by (simp add: rebuild_unfold snapshot_base_def replay_start_def get_snapshot_def get_events_def
        events_append_events snapshots_append_events save_snapshot_def save_snapshot_es_def)

lemma event_store_undo_command:
  "event_store (snd (undo_command g c cm)) = undo c (version_counter cm + 1) (event_store cm)"
  by (cases g) (simp_all add: undo_command_unbound undo_command_bound)

lemma event_store_on_exception_single:
  "event_store (snd (snd (on_exception g e [c] cm))) = undo c (version_counter cm + 1) (event_store cm)"
  by (cases g) (simp_all add: on_exception_def compensate_transfer_def undo_command_unbound undo_command_bound)

lemma start_transfer_fresh_failure:
  assumes "start_transfer g [] a b n cm = (Inl e, sc', cm')"
  shows "cm' = cm \<and> sc' = [] \<and> e = InsufficientBalanceError"
proof (cases "balance (rebuild_aggregate a (event_store cm)) < n")
  case True
  then have "execute_command (WithdrawalCommand a n) cm = (Inl InsufficientBalanceError, cm)"
    by (simp add: execute_command_rejected)
  then have "start_transfer g [] a b n cm = (Inl InsufficientBalanceError, [], cm)"
    by (simp add: start_transfer_def on_exception_def compensate_transfer_def)
  with assms show ?thesis by simp
next
  case False
  then have w: "fst (execute_command (WithdrawalCommand a n) cm) = Inr ()"
    by (simp add: execute_command_accepted)
  have d: "\<And>cm1. fst (execute_command (DepositCommand b n) cm1) = Inr ()"
    by (simp add: execute_command_accepted)
  have "fst (start_transfer g [] a b n cm) = Inr ()"
    using w d [of "snd (execute_command (WithdrawalCommand a n) cm)"]
    by (auto simp: start_transfer_def Let_def split: prod.splits sum.splits)
  with assms show ?thesis by simp
qed

lemma balance_undo_execute:
  assumes "replay_start (cmd_account_id c) es < v" and "v < v'"
  shows "balance (rebuild_aggregate (cmd_account_id c) (undo c v' (execute c v es))) =
         balance (rebuild_aggregate (cmd_account_id c) es)"
  using assms by (simp add: balance_rebuild_undo balance_rebuild_execute replay_start_execute)

lemma execute_command_deposit:
  "execute_command (DepositCommand a n) cm =
     (Inr (), \<lparr>event_store = execute (DepositCommand a n) (version_counter cm + 1) (event_store cm),
               entity_store = update_entity a
                 (balance (rebuild_aggregate a
                    (execute (DepositCommand a n) (version_counter cm + 1) (event_store cm))))
                 (version_counter cm + 1) (entity_store cm),
               version_counter = version_counter cm + 1\<rparr>)"
  using execute_command_accepted [of "DepositCommand a n" cm] by simp

lemma after_deposit_eq:
  "after_deposit =
     \<lparr>event_store = \<lparr>events = [\<lparr>event_type = ''Deposit'', data_id = 1, data_amount = 150,
                                   event_version = 1\<rparr>],
                      snapshots = Map.empty\<rparr>,
      entity_store = \<lparr>accounts = [1 \<mapsto> \<lparr>ent_account_id = 1, ent_balance = 150, ent_version = 1\<rparr>]\<rparr>,
      version_counter = 1\<rparr>"
  by (simp add: after_deposit_def execute_command_deposit init_model_def add_event_def
        update_entity_def rebuild_aggregate_def get_snapshot_def get_events_def new_aggregate_def
        apply_event_def)

lemma funded_model_eq:
  "funded_model =
     \<lparr>event_store = \<lparr>events = [\<lparr>event_type = ''Deposit'', data_id = 1, data_amount = 100,
                                   event_version = 1\<rparr>],
                      snapshots = Map.empty\<rparr>,
      entity_store = \<lparr>accounts = [1 \<mapsto> \<lparr>ent_account_id = 1, ent_balance = 100, ent_version = 1\<rparr>]\<rparr>,
      version_counter = 1\<rparr>"
  by (simp add: funded_model_def execute_command_deposit init_model_def add_event_def
        update_entity_def rebuild_aggregate_def get_snapshot_def get_events_def new_aggregate_def
        apply_event_def)

lemmas eval_defs =
  execute_command_def undo_command_def can_withdraw_def rebuild_aggregate_def get_snapshot_def
  get_events_def new_aggregate_def apply_event_def add_event_def update_entity_def
  query_entity_def Let_def

lemma snapshot_replay_agrees:
  assumes inc: "sorted_wrt (<) (map event_version (events es @ later))"
      and base: "rebuild_aggregate a es = rebuild_aggregate a (without_snapshots es)"
  shows "rebuild_aggregate a (append_events later (save_snapshot (rebuild_aggregate a es) es)) =
         rebuild_aggregate a (without_snapshots (append_events later es))"
proof -
  define R where "R = foldl apply_event (new_aggregate a)
                        (filter (\<lambda>e. data_id e = a \<and> 0 < event_version e) (events es))"
  have R: "rebuild_aggregate a es = R" by (simp add: base from_zero_unfold R_def)
  have id: "account_id R = a" using account_id_rebuild [of a es] R by simp
  then have rec: "\<lparr>account_id = a, balance = balance R, version = version R\<rparr> = R" by simp
  have "rebuild_aggregate a (append_events later (save_snapshot R es)) =
        foldl apply_event R
          (filter (\<lambda>e. data_id e = a \<and> version R < event_version e) (events es @ later))"
    by (simp add: rebuild_saved_snapshot id rec)
  also have "\<dots> = foldl apply_event R (filter (\<lambda>e. data_id e = a \<and> 0 < event_version e) later)"
    using replay_after_snapshot [OF inc, of a] by (simp add: R_def)
  also have "\<dots> = rebuild_aggregate a (without_snapshots (append_events later es))"
    by (simp add: from_zero_unfold events_append_events R_def)
  finally show ?thesis by (simp add: R)
qed

section \<open>Reachable states\<close>

lemma version_rebuild_bounded:
  assumes "versions_bounded cm"
  shows "version (rebuild_aggregate a (event_store cm)) \<le> version_counter cm"
proof (cases "get_events a (replay_start a (event_store cm)) (event_store cm) = []")
  case True
  then show ?thesis using assms
    by (auto simp: rebuild_unfold version_foldl snapshot_base_def get_snapshot_def
          new_aggregate_def versions_bounded_def split: option.splits)
next
  case False
  then have "last (get_events a (replay_start a (event_store cm)) (event_store cm))
               \<in> set (get_events a (replay_start a (event_store cm)) (event_store cm))"
    by (rule last_in_set)
  then have "last (get_events a (replay_start a (event_store cm)) (event_store cm))
               \<in> set (events (event_store cm))"
    by (simp add: get_events_def)
  then show ?thesis using assms False
    by (simp add: rebuild_unfold version_foldl versions_bounded_def)
qed

lemma versions_bounded_add_event:
  assumes "versions_bounded cm"
  shows "versions_bounded \<lparr>event_store = add_event e (event_store cm), entity_store = ent,
           version_counter = version_counter cm + 1\<rparr>
         = (event_version e \<le> version_counter cm + 1)"
  using assms by (fastforce simp: versions_bounded_def add_event_def)

lemma reachable_versions_bounded: "reachable cm \<Longrightarrow> versions_bounded cm"
proof (induction rule: reachable.induct)
  case start
  show ?case by (simp add: versions_bounded_def init_model_def)
next
  case (executed cm c)
  show ?case
  proof (cases "is_withdrawal c \<and>
                balance (rebuild_aggregate (cmd_account_id c) (event_store cm)) < cmd_amount c")
    case True
    then show ?thesis using executed.IH by (simp add: execute_command_rejected)
  next
    case False
    then show ?thesis using executed.IH
      by (simp add: execute_command_accepted execute_add_event versions_bounded_add_event
            forward_event_fields)
  qed
next
  case (undone cm g c)
  then show ?case
    by (cases g) (simp_all add: undo_command_unbound undo_command_bound undo_add_event
                    versions_bounded_add_event inverse_event_fields)
next
  case (snapshotted cm a)
  from version_rebuild_bounded [OF snapshotted.IH, of a] snapshotted.IH show ?case
    by (auto simp: versions_bounded_def save_snapshot_def save_snapshot_es_def)
qed

lemma reachable_counter_ahead: "reachable cm \<Longrightarrow> counter_ahead a cm"
  using reachable_versions_bounded [of cm]
  by (auto simp: counter_ahead_def replay_start_def get_snapshot_def versions_bounded_def
        split: option.splits)

lemma sorted_add_event:
  assumes "sorted_wrt (<) (map event_version (events es))"
      and "\<forall>x \<in> set (events es). event_version x < event_version e"
  shows "sorted_wrt (<) (map event_version (events (add_event e es)))"
  using assms by (simp add: add_event_def sorted_wrt_append)

lemma versions_below_next:
  "versions_bounded cm \<Longrightarrow> \<forall>x \<in> set (events (event_store cm)). event_version x < version_counter cm + 1"
  by (fastforce simp: versions_bounded_def)

lemma reachable_strictly_increasing:
  "reachable cm \<Longrightarrow> sorted_wrt (<) (map event_version (events (event_store cm)))"
proof (induction rule: reachable.induct)
  case start
  show ?case by (simp add: init_model_def)
next
  case (executed cm c)
  have below: "\<forall>x \<in> set (events (event_store cm)). event_version x < version_counter cm + 1"
    by (rule versions_below_next [OF reachable_versions_bounded [OF executed.hyps]])
  show ?case
  proof (cases "is_withdrawal c \<and>
                balance (rebuild_aggregate (cmd_account_id c) (event_store cm)) < cmd_amount c")
    case True
    then show ?thesis using executed.IH by (simp add: execute_command_rejected)
  next
    case False
    then show ?thesis using executed.IH below
      by (simp add: execute_command_accepted execute_add_event sorted_add_event
            forward_event_fields)
  qed
next
  case (undone cm g c)
  have below: "\<forall>x \<in> set (events (event_store cm)). event_version x < version_counter cm + 1"
    by (rule versions_below_next [OF reachable_versions_bounded [OF undone.hyps]])
  show ?case using undone.IH below
    by (cases g) (simp_all add: undo_command_unbound undo_command_bound undo_add_event
          sorted_add_event inverse_event_fields)
next
  case (snapshotted cm a)
  then show ?case by (simp add: save_snapshot_def save_snapshot_es_def)
qed

lemma without_snapshots_add_event:
  "without_snapshots (add_event e es) = add_event e (without_snapshots es)"
  by (simp add: without_snapshots_def add_event_def)

lemma replay_start_without_snapshots: "replay_start a (without_snapshots es) = 0"
  by (simp add: replay_start_def get_snapshot_def without_snapshots_def)

lemma append_events_Nil: "append_events [] es = es"
  by (simp add: append_events_def)

lemma rebuild_other_snapshot:
  "account_id R \<noteq> a \<Longrightarrow> rebuild_aggregate a (save_snapshot R es) = rebuild_aggregate a es"
  by (simp add: rebuild_aggregate_def get_snapshot_def get_events_def save_snapshot_def
        save_snapshot_es_def)

lemma without_snapshots_save_snapshot:
  "without_snapshots (save_snapshot R es) = without_snapshots es"
  by (simp add: without_snapshots_def save_snapshot_def save_snapshot_es_def)

lemma agrees_after_add_event:
  assumes agree: "rebuild_aggregate a es = rebuild_aggregate a (without_snapshots es)"
      and "replay_start a es < event_version e" and "0 < event_version e"
  shows "rebuild_aggregate a (add_event e es) = rebuild_aggregate a (without_snapshots (add_event e es))"
  using assms
  by (simp add: without_snapshots_add_event rebuild_add_event replay_start_without_snapshots)

lemma reachable_snapshot_agrees:
  "reachable cm \<Longrightarrow>
   rebuild_aggregate a (event_store cm) = rebuild_aggregate a (without_snapshots (event_store cm))"
proof (induction rule: reachable.induct)
  case start
  show ?case by (simp add: init_model_def without_snapshots_def)
next
  case (executed cm c)
  have ahead: "replay_start a (event_store cm) < version_counter cm + 1"
    and pos: "0 < version_counter cm + 1"
    using reachable_counter_ahead [OF executed.hyps, of a]
          reachable_versions_bounded [OF executed.hyps]
    by (simp_all add: counter_ahead_def versions_bounded_def)
  show ?case
  proof (cases "is_withdrawal c \<and>
                balance (rebuild_aggregate (cmd_account_id c) (event_store cm)) < cmd_amount c")
    case True
    then show ?thesis using executed.IH by (simp add: execute_command_rejected)
  next
    case False
    then show ?thesis using agrees_after_add_event [OF executed.IH, of "forward_event c (version_counter cm + 1)"] ahead pos
      by (simp add: execute_command_accepted execute_add_event forward_event_fields)
  qed
next
  case (undone cm g c)
  have ahead: "replay_start a (event_store cm) < version_counter cm + 1"
    and pos: "0 < version_counter cm + 1"
    using reachable_counter_ahead [OF undone.hyps, of a]
          reachable_versions_bounded [OF undone.hyps]
    by (simp_all add: counter_ahead_def versions_bounded_def)
  show ?case
    using agrees_after_add_event [OF undone.IH, of "inverse_event c (version_counter cm + 1)"] ahead pos
    by (cases g) (simp_all add: undo_command_unbound undo_command_bound undo_add_event
                    inverse_event_fields)
next
  case (snapshotted cm b)
  show ?case
  proof (cases "b = a")
    case True
    have inc: "sorted_wrt (<) (map event_version (events (event_store cm) @ []))"
      using reachable_strictly_increasing [OF snapshotted.hyps] by simp
    from snapshot_replay_agrees [OF inc snapshotted.IH] True show ?thesis
      by (simp add: append_events_Nil without_snapshots_save_snapshot)
  next
    case False
    then have "account_id (rebuild_aggregate b (event_store cm)) \<noteq> a"
      by (simp add: account_id_rebuild)
    then show ?thesis using snapshotted.IH
      by (simp add: rebuild_other_snapshot without_snapshots_save_snapshot)
  qed
qed

lemma start_transfer_accepted_withdrawal:
  assumes "fst (execute_command (WithdrawalCommand a n) cm) = Inr ()"
  shows "fst (start_transfer g sc a b n cm) = Inr ()"
proof -
  have d: "fst (execute_command (DepositCommand b n)
                  (snd (execute_command (WithdrawalCommand a n) cm))) = Inr ()"
    by (simp add: execute_command_deposit)
  from assms d show ?thesis
    by (auto simp: start_transfer_def Let_def split: prod.splits sum.splits)
qed

lemma start_transfer_raises_only_rejected:
  assumes "fst (start_transfer g sc a b n cm) = Inl e"
  shows "execute_command (WithdrawalCommand a n) cm = (Inl InsufficientBalanceError, cm)"
proof (cases "balance (rebuild_aggregate a (event_store cm)) < n")
  case True
  then show ?thesis by (simp add: execute_command_rejected)
next
  case False
  then have "fst (execute_command (WithdrawalCommand a n) cm) = Inr ()"
    by (simp add: execute_command_accepted)
  from start_transfer_accepted_withdrawal [OF this, of g sc b] assms show ?thesis by simp
qed

lemma apply_events_foldl: "apply_events account evs cm = (foldl apply_event account evs, cm)"
  by (induction evs arbitrary: account) simp_all

lemma rebuild_aggregate_call_eq:
  "rebuild_aggregate_call a cm = (rebuild_aggregate a (event_store cm), cm)"
  by (simp add: rebuild_aggregate_call_def get_snapshot_call_def get_events_call_def
        apply_events_foldl rebuild_aggregate_def get_snapshot_def get_events_def Let_def)

lemma snapshot_then_withdraw_reachable: "reachable snapshot_then_withdraw"
  unfolding snapshot_then_withdraw_def after_deposit_def
  by (intro reachable.executed reachable.snapshotted reachable.start)

section \<open>Claims\<close>

text \<open>
  C1. The claim: \<open>undo_command\<close> increments the version counter, appends the command's
  inverse event, rebuilds the aggregate of the targeted account, writes the rebuilt
  balance into the entity store and returns normally. The code at the input below: a
  deposit of 150 into account 1 is executed on the initial model and then undone.
  With no module-level \<open>account\<close> the call bumps the counter to 2, appends the
  compensating withdrawal and raises \<open>NameError\<close>; the entity of account 1 keeps
  balance 150 at version 1 although the rebuilt balance is 0. With \<open>account\<close> bound to
  the aggregate rebuilt before the undo, the call returns, and the entity gets that
  stale balance 150 at version 2. No aggregate is rebuilt in either case.
\<close>

theorem undo_command_skips_rebuild:
  "fst (undo_command None (DepositCommand 1 150) after_deposit) = Inl NameError
   \<and> version_counter (snd (undo_command None (DepositCommand 1 150) after_deposit)) = 2
   \<and> events (event_store (snd (undo_command None (DepositCommand 1 150) after_deposit))) =
       [\<lparr>event_type = ''Deposit'', data_id = 1, data_amount = 150, event_version = 1\<rparr>,
        \<lparr>event_type = ''Withdrawal'', data_id = 1, data_amount = 150, event_version = 2\<rparr>]
   \<and> query_entity 1 (entity_store (snd (undo_command None (DepositCommand 1 150) after_deposit))) =
       Some \<lparr>ent_account_id = 1, ent_balance = 150, ent_version = 1\<rparr>
   \<and> balance (rebuild_aggregate 1
        (event_store (snd (undo_command None (DepositCommand 1 150) after_deposit)))) = 0
   \<and> fst (undo_command (Some (rebuild_aggregate 1 (event_store after_deposit)))
            (DepositCommand 1 150) after_deposit) = Inr ()
   \<and> query_entity 1 (entity_store (snd (undo_command
          (Some (rebuild_aggregate 1 (event_store after_deposit)))
          (DepositCommand 1 150) after_deposit))) =
       Some \<lparr>ent_account_id = 1, ent_balance = 150, ent_version = 2\<rparr>
   \<and> balance (rebuild_aggregate 1 (event_store (snd (undo_command
          (Some (rebuild_aggregate 1 (event_store after_deposit)))
          (DepositCommand 1 150) after_deposit)))) = 0"
  by (simp add: after_deposit_eq eval_defs)

text \<open>
  C3. The claim: when a step of the saga raises, \<open>start_transfer\<close> compensates the
  completed steps and re-raises that same error, never a different one. The code at
  the input below: account 1 holds 100 and there is no module-level \<open>account\<close>; a saga
  transfers 50 from account 1 to account 2, which succeeds and leaves the two commands
  in \<open>successful_commands\<close>; the same saga is then asked to transfer 100. The
  withdrawal step raises \<open>InsufficientBalanceError\<close>, the \<open>except\<close> block starts to
  compensate, \<open>undo_command\<close> raises \<open>NameError\<close> after appending the first
  compensating event, and \<open>NameError\<close> is what \<open>start_transfer\<close> raises; the list
  is not cleared and the earlier withdrawal is not compensated.
\<close>

theorem reused_saga_raises_name_error:
  "fst first_transfer = Inr ()
   \<and> fst (snd first_transfer) = [WithdrawalCommand 1 50, DepositCommand 2 50]
   \<and> fst (execute_command (WithdrawalCommand 1 100) (snd (snd first_transfer))) =
       Inl InsufficientBalanceError
   \<and> fst (start_transfer None (fst (snd first_transfer)) 1 2 100 (snd (snd first_transfer))) =
       Inl NameError
   \<and> fst (snd (start_transfer None (fst (snd first_transfer)) 1 2 100 (snd (snd first_transfer)))) =
       [WithdrawalCommand 1 50, DepositCommand 2 50]
   \<and> balance (rebuild_aggregate 1 (event_store (snd (snd
        (start_transfer None (fst (snd first_transfer)) 1 2 100 (snd (snd first_transfer))))))) = 50
   \<and> balance (rebuild_aggregate 2 (event_store (snd (snd
        (start_transfer None (fst (snd first_transfer)) 1 2 100 (snd (snd first_transfer))))))) = 0"
  by (simp add: first_transfer_def start_transfer_def on_exception_def compensate_transfer_def
        funded_model_eq eval_defs)

text \<open>
  C4. A withdrawal whose rebuilt balance is below its amount is rejected with
  \<open>InsufficientBalanceError\<close> and the command model is returned as it was: same version
  counter, same log, same snapshots, same entity store.
\<close>

theorem rejected_withdrawal_writes_nothing:
  "balance (rebuild_aggregate a (event_store cm)) < n \<Longrightarrow>
   execute_command (WithdrawalCommand a n) cm = (Inl InsufficientBalanceError, cm)"
  by (simp add: execute_command_def can_withdraw_def)

theorem rejected_withdrawal_writes_nothing_witness:
  "balance (rebuild_aggregate 1 (event_store after_deposit)) < 200
   \<and> execute_command (WithdrawalCommand 1 200) after_deposit =
       (Inl InsufficientBalanceError, after_deposit)"
proof -
  have low: "balance (rebuild_aggregate 1 (event_store after_deposit)) < 200"
    by (simp add: after_deposit_eq eval_defs)
  from low rejected_withdrawal_writes_nothing [OF low] show ?thesis by simp
qed

text \<open>
  C5. Balance invariant. Commands of any accounts are submitted one after the other to
  the initial model, rejected ones being skipped. For every account \<open>a\<close> the rebuilt
  balance is then the sum of the accepted deposits into \<open>a\<close> minus the sum of the
  accepted withdrawals from \<open>a\<close>; and whenever a further withdrawal from \<open>a\<close> is
  accepted in such a state, the rebuilt balance after it is not negative.
\<close>

theorem balance_invariant:
  "balance (rebuild_aggregate a (event_store (snd (run_commands cs init_model)))) =
     deposit_sum a (fst (run_commands cs init_model))
       - withdrawal_sum a (fst (run_commands cs init_model))
   \<and> (\<forall>n cm'. execute_command (WithdrawalCommand a n) (snd (run_commands cs init_model)) = (Inr (), cm')
        \<longrightarrow> 0 \<le> balance (rebuild_aggregate a (event_store cm')))"
  using run_commands_balance [OF counter_ahead_init, of a cs]
        accepted_withdrawal_nonneg [OF counter_ahead_run [OF counter_ahead_init, of a cs]]
  by (simp add: init_balance)

theorem balance_invariant_witness:
  "fst (run_commands [DepositCommand 1 150, WithdrawalCommand 1 50, WithdrawalCommand 1 150,
                      DepositCommand 2 30] init_model) =
     [DepositCommand 1 150, WithdrawalCommand 1 50, DepositCommand 2 30]
   \<and> balance (rebuild_aggregate 1 (event_store (snd (run_commands
        [DepositCommand 1 150, WithdrawalCommand 1 50, WithdrawalCommand 1 150,
         DepositCommand 2 30] init_model)))) = 100
   \<and> fst (execute_command (WithdrawalCommand 1 100) (snd (run_commands
        [DepositCommand 1 150, WithdrawalCommand 1 50, WithdrawalCommand 1 150,
         DepositCommand 2 30] init_model))) = Inr ()
   \<and> 0 \<le> balance (rebuild_aggregate 1 (event_store (snd (execute_command (WithdrawalCommand 1 100)
        (snd (run_commands
           [DepositCommand 1 150, WithdrawalCommand 1 50, WithdrawalCommand 1 150,
            DepositCommand 2 30] init_model))))))"
proof -
  let ?cs = "[DepositCommand 1 150, WithdrawalCommand 1 50, WithdrawalCommand 1 150,
              DepositCommand 2 30]"
  let ?cm = "snd (run_commands ?cs init_model)"
  have acc: "fst (run_commands ?cs init_model) =
               [DepositCommand 1 150, WithdrawalCommand 1 50, DepositCommand 2 30]"
    by (simp add: init_model_def eval_defs)
  have ok: "fst (execute_command (WithdrawalCommand 1 100) ?cm) = Inr ()"
    by (simp add: init_model_def eval_defs)
  then have step: "execute_command (WithdrawalCommand 1 100) ?cm =
                     (Inr (), snd (execute_command (WithdrawalCommand 1 100) ?cm))"
    by (metis prod.collapse)
  from balance_invariant [of 1 ?cs] have
    bal: "balance (rebuild_aggregate 1 (event_store ?cm)) =
            deposit_sum 1 (fst (run_commands ?cs init_model))
              - withdrawal_sum 1 (fst (run_commands ?cs init_model))"
    and nonneg: "0 \<le> balance (rebuild_aggregate 1 (event_store
                   (snd (execute_command (WithdrawalCommand 1 100) ?cm))))"
    using step by blast+
  from bal have "balance (rebuild_aggregate 1 (event_store ?cm)) = 100"
    by (simp only: acc) simp
  with acc ok nonneg show ?thesis by blast
qed

text \<open>
  C6. Snapshot equivalence, for every account \<open>a\<close> and every state the system reaches
  (any interleaving of executed and undone commands and of snapshot saves, for any
  accounts). When a snapshot capturing the rebuilt aggregate is saved now,
  \<open>rebuild_aggregate\<close> returns from it the balance (and version) it returns from zero
  on the same log with no snapshot; and in the state as it is, with whatever snapshots
  were saved at earlier versions and whatever events came after them, it returns the
  balance (and version) it returns from zero.
\<close>

theorem snapshot_equivalence:
  assumes "reachable cm"
  shows "rebuild_aggregate a (save_snapshot (rebuild_aggregate a (event_store cm)) (event_store cm)) =
           rebuild_aggregate a (without_snapshots (event_store cm))
       \<and> rebuild_aggregate a (event_store cm) =
           rebuild_aggregate a (without_snapshots (event_store cm))"
proof -
  have now: "rebuild_aggregate a (event_store cm) =
               rebuild_aggregate a (without_snapshots (event_store cm))"
    by (rule reachable_snapshot_agrees [OF assms])
  have "reachable (cm\<lparr>event_store :=
          save_snapshot (rebuild_aggregate a (event_store cm)) (event_store cm)\<rparr>)"
    by (rule reachable.snapshotted [OF assms])
  from reachable_snapshot_agrees [OF this, of a] have
    "rebuild_aggregate a (save_snapshot (rebuild_aggregate a (event_store cm)) (event_store cm)) =
       rebuild_aggregate a (without_snapshots (event_store cm))"
    by (simp add: without_snapshots_save_snapshot)
  with now show ?thesis by simp
qed

theorem snapshot_equivalence_witness:
  "reachable snapshot_then_withdraw
   \<and> get_snapshot 1 (event_store snapshot_then_withdraw) =
       Some \<lparr>snap_balance = 150, snap_version = 1\<rparr>
   \<and> get_events 1 1 (event_store snapshot_then_withdraw) =
       [\<lparr>event_type = ''Withdrawal'', data_id = 1, data_amount = 50, event_version = 2\<rparr>]
   \<and> balance (rebuild_aggregate 1 (event_store snapshot_then_withdraw)) = 100
   \<and> balance (rebuild_aggregate 1 (without_snapshots (event_store snapshot_then_withdraw))) = 100
   \<and> balance (rebuild_aggregate 1
        (save_snapshot (rebuild_aggregate 1 (event_store snapshot_then_withdraw))
           (event_store snapshot_then_withdraw))) = 100"
proof -
  have snap: "get_snapshot 1 (event_store snapshot_then_withdraw) =
                Some \<lparr>snap_balance = 150, snap_version = 1\<rparr>"
    by (simp add: snapshot_then_withdraw_def after_deposit_eq save_snapshot_def
          save_snapshot_es_def eval_defs)
  have evs: "get_events 1 1 (event_store snapshot_then_withdraw) =
       [\<lparr>event_type = ''Withdrawal'', data_id = 1, data_amount = 50, event_version = 2\<rparr>]"
    by (simp add: snapshot_then_withdraw_def after_deposit_eq save_snapshot_def
          save_snapshot_es_def eval_defs)
  have zero: "balance (rebuild_aggregate 1 (without_snapshots (event_store snapshot_then_withdraw))) = 100"
    by (simp add: snapshot_then_withdraw_def after_deposit_eq save_snapshot_def
          save_snapshot_es_def without_snapshots_def eval_defs)
  from snapshot_equivalence [OF snapshot_then_withdraw_reachable, of 1]
  have saved: "rebuild_aggregate 1
                 (save_snapshot (rebuild_aggregate 1 (event_store snapshot_then_withdraw))
                    (event_store snapshot_then_withdraw)) =
               rebuild_aggregate 1 (without_snapshots (event_store snapshot_then_withdraw))"
    and now: "rebuild_aggregate 1 (event_store snapshot_then_withdraw) =
              rebuild_aggregate 1 (without_snapshots (event_store snapshot_then_withdraw))"
    by blast+
  have b1: "balance (rebuild_aggregate 1 (event_store snapshot_then_withdraw)) = 100"
    unfolding now by (rule zero)
  have b2: "balance (rebuild_aggregate 1
              (save_snapshot (rebuild_aggregate 1 (event_store snapshot_then_withdraw))
                 (event_store snapshot_then_withdraw))) = 100"
    unfolding saved by (rule zero)
  from snapshot_then_withdraw_reachable snap evs zero b1 b2 show ?thesis by blast
qed

text \<open>
  C7. Replay is a pure, deterministic read. The call \<open>rebuild_aggregate\<close> leaves the
  system state as it found it: the log, the snapshots, the entity store and the
  version counter are the same after the call. A second call right after the first
  returns the same aggregate (balance and version). The aggregate is the one computed
  from the event store alone, and it depends on the log and on the snapshot of this
  account only: two system states with the same log and the same snapshot for the
  account give the same aggregate, whatever their entity stores, counters and other
  snapshots are.
\<close>

theorem rebuild_aggregate_deterministic:
  "snd (rebuild_aggregate_call a cm) = cm
   \<and> events (event_store (snd (rebuild_aggregate_call a cm))) = events (event_store cm)
   \<and> snapshots (event_store (snd (rebuild_aggregate_call a cm))) = snapshots (event_store cm)
   \<and> entity_store (snd (rebuild_aggregate_call a cm)) = entity_store cm
   \<and> fst (rebuild_aggregate_call a (snd (rebuild_aggregate_call a cm))) =
       fst (rebuild_aggregate_call a cm)
   \<and> fst (rebuild_aggregate_call a cm) = rebuild_aggregate a (event_store cm)
   \<and> (events (event_store cm) = events (event_store cm') \<and>
       snapshots (event_store cm) a = snapshots (event_store cm') a \<longrightarrow>
       fst (rebuild_aggregate_call a cm) = fst (rebuild_aggregate_call a cm'))"
proof -
  have frame: "snd (rebuild_aggregate_call a cm) = cm"
    by (simp add: rebuild_aggregate_call_def get_snapshot_call_def get_events_call_def
          apply_events_foldl Let_def)
  have val: "\<And>c. fst (rebuild_aggregate_call a c) = rebuild_aggregate a (event_store c)"
    by (simp add: rebuild_aggregate_call_eq)
  have dep: "events (event_store cm) = events (event_store cm') \<and>
             snapshots (event_store cm) a = snapshots (event_store cm') a \<longrightarrow>
             fst (rebuild_aggregate_call a cm) = fst (rebuild_aggregate_call a cm')"
    by (simp add: rebuild_aggregate_call_def get_snapshot_call_def get_events_call_def
          apply_events_foldl Let_def)
  from frame val dep show ?thesis by simp
qed

theorem rebuild_aggregate_deterministic_witness:
  "events (event_store snapshot_then_withdraw) =
     events (event_store (snapshot_then_withdraw\<lparr>
        event_store := save_snapshot_es 2 \<lparr>snap_balance = 7, snap_version = 9\<rparr>
                         (event_store snapshot_then_withdraw),
        entity_store := \<lparr>accounts = Map.empty\<rparr>, version_counter := 40\<rparr>))
   \<and> snapshots (event_store snapshot_then_withdraw) 1 =
     snapshots (event_store (snapshot_then_withdraw\<lparr>
        event_store := save_snapshot_es 2 \<lparr>snap_balance = 7, snap_version = 9\<rparr>
                         (event_store snapshot_then_withdraw),
        entity_store := \<lparr>accounts = Map.empty\<rparr>, version_counter := 40\<rparr>)) 1
   \<and> fst (rebuild_aggregate_call 1 snapshot_then_withdraw) =
     fst (rebuild_aggregate_call 1 (snapshot_then_withdraw\<lparr>
        event_store := save_snapshot_es 2 \<lparr>snap_balance = 7, snap_version = 9\<rparr>
                         (event_store snapshot_then_withdraw),
        entity_store := \<lparr>accounts = Map.empty\<rparr>, version_counter := 40\<rparr>))
   \<and> rebuild_aggregate_call 1 snapshot_then_withdraw =
       (\<lparr>account_id = 1, balance = 100, version = 2\<rparr>, snapshot_then_withdraw)"
proof -
  let ?cm' = "snapshot_then_withdraw\<lparr>
        event_store := save_snapshot_es 2 \<lparr>snap_balance = 7, snap_version = 9\<rparr>
                         (event_store snapshot_then_withdraw),
        entity_store := \<lparr>accounts = Map.empty\<rparr>, version_counter := 40\<rparr>"
  have e: "events (event_store snapshot_then_withdraw) = events (event_store ?cm')"
    by (simp add: save_snapshot_es_def)
  have sn: "snapshots (event_store snapshot_then_withdraw) 1 = snapshots (event_store ?cm') 1"
    by (simp add: save_snapshot_es_def)
  have v: "rebuild_aggregate 1 (event_store snapshot_then_withdraw) =
             \<lparr>account_id = 1, balance = 100, version = 2\<rparr>"
    by (simp add: snapshot_then_withdraw_def after_deposit_eq save_snapshot_def
          save_snapshot_es_def eval_defs)
  from rebuild_aggregate_deterministic [of 1 snapshot_then_withdraw ?cm'] e sn
  have same: "fst (rebuild_aggregate_call 1 snapshot_then_withdraw) =
              fst (rebuild_aggregate_call 1 ?cm')"
    and frame: "snd (rebuild_aggregate_call 1 snapshot_then_withdraw) = snapshot_then_withdraw"
    and val: "fst (rebuild_aggregate_call 1 snapshot_then_withdraw) =
              rebuild_aggregate 1 (event_store snapshot_then_withdraw)"
    by blast+
  from frame val v have "rebuild_aggregate_call 1 snapshot_then_withdraw =
       (\<lparr>account_id = 1, balance = 100, version = 2\<rparr>, snapshot_then_withdraw)"
    by (metis prod.collapse)
  with e sn same show ?thesis by blast
qed

text \<open>
  C8. Undo inverts execute. For a deposit of \<open>n\<close> into account \<open>a\<close> and for a
  withdrawal of \<open>n\<close> from it, on any prior store: executing with a fresh version \<open>v\<close>
  (beyond the version the account is replayed from) and undoing with a later version
  \<open>v'\<close> gives back the rebuilt balance the account had before.
\<close>

theorem undo_inverts_execute:
  assumes "replay_start a es < v" and "v < v'"
  shows "balance (rebuild_aggregate a
            (undo (DepositCommand a n) v' (execute (DepositCommand a n) v es))) =
         balance (rebuild_aggregate a es)
       \<and> balance (rebuild_aggregate a
            (undo (WithdrawalCommand a n) v' (execute (WithdrawalCommand a n) v es))) =
         balance (rebuild_aggregate a es)"
  using balance_undo_execute [of "DepositCommand a n" es v v']
        balance_undo_execute [of "WithdrawalCommand a n" es v v'] assms
  by (simp del: undo.simps execute.simps)

theorem undo_inverts_execute_witness:
  "replay_start 1 (save_snapshot (rebuild_aggregate 1 (event_store after_deposit))
                     (event_store after_deposit)) < 2
   \<and> (2::int) < 3
   \<and> balance (rebuild_aggregate 1
        (undo (DepositCommand 1 40) 3 (execute (DepositCommand 1 40) 2
           (save_snapshot (rebuild_aggregate 1 (event_store after_deposit))
              (event_store after_deposit))))) = 150
   \<and> balance (rebuild_aggregate 1
        (undo (WithdrawalCommand 1 40) 3 (execute (WithdrawalCommand 1 40) 2
           (save_snapshot (rebuild_aggregate 1 (event_store after_deposit))
              (event_store after_deposit))))) = 150
   \<and> balance (rebuild_aggregate 1
        (save_snapshot (rebuild_aggregate 1 (event_store after_deposit))
           (event_store after_deposit))) = 150"
proof -
  let ?es = "save_snapshot (rebuild_aggregate 1 (event_store after_deposit))
               (event_store after_deposit)"
  have fresh: "replay_start 1 ?es < 2"
    by (simp add: replay_start_def save_snapshot_def save_snapshot_es_def after_deposit_eq eval_defs)
  have later: "(2::int) < 3" by simp
  have before: "balance (rebuild_aggregate 1 ?es) = 150"
    by (simp add: save_snapshot_def save_snapshot_es_def after_deposit_eq eval_defs)
  from undo_inverts_execute [OF fresh later, of 40] fresh before show ?thesis
    by (simp del: undo.simps execute.simps)
qed

text \<open>
  C9. \<open>execute_command\<close> raises \<open>InsufficientBalanceError\<close> exactly for a withdrawal
  whose rebuilt balance is below its amount, and raises nothing else. No amount is
  validated: a deposit of any amount, zero and negative ones too, is accepted and its
  event appended under the next version; a deposit of -5 into an empty account leaves
  the rebuilt balance -5.
\<close>

theorem rejection_exactly_overdrawn_withdrawal:
  "(fst (execute_command c cm) = Inl InsufficientBalanceError) =
     (\<exists>a n. c = WithdrawalCommand a n \<and> balance (rebuild_aggregate a (event_store cm)) < n)
   \<and> fst (execute_command c cm) \<noteq> Inl NameError
   \<and> fst (execute_command (DepositCommand a n) cm) = Inr ()
   \<and> events (event_store (snd (execute_command (DepositCommand a n) cm))) =
       events (event_store cm) @
         [\<lparr>event_type = ''Deposit'', data_id = a, data_amount = n,
           event_version = version_counter cm + 1\<rparr>]
   \<and> balance (rebuild_aggregate 1
        (event_store (snd (execute_command (DepositCommand 1 (- 5)) init_model)))) = - 5"
proof -
  have iff: "(fst (execute_command c cm) = Inl InsufficientBalanceError) =
     (\<exists>a n. c = WithdrawalCommand a n \<and> balance (rebuild_aggregate a (event_store cm)) < n)"
    by (cases c) (auto simp: execute_command_def can_withdraw_def Let_def)
  have other: "fst (execute_command c cm) \<noteq> Inl NameError"
    using execute_command_cases [of c cm] by auto
  have dep: "fst (execute_command (DepositCommand a n) cm) = Inr ()"
    by (simp add: execute_command_deposit)
  have app: "events (event_store (snd (execute_command (DepositCommand a n) cm))) =
       events (event_store cm) @
         [\<lparr>event_type = ''Deposit'', data_id = a, data_amount = n,
           event_version = version_counter cm + 1\<rparr>]"
    by (simp add: execute_command_deposit add_event_def)
  have neg: "balance (rebuild_aggregate 1
        (event_store (snd (execute_command (DepositCommand 1 (- 5)) init_model)))) = - 5"
    by (simp add: init_model_def eval_defs)
  from iff other dep app neg show ?thesis by simp
qed

text \<open>
  C10. A command that targets another account than \<open>b\<close> leaves \<open>b\<close> alone, whether it
  is executed (accepted or rejected) or undone (with or without a global \<open>account\<close>):
  the aggregate rebuilt for \<open>b\<close>, the snapshot of \<open>b\<close> and the entity of \<open>b\<close> are the
  same afterwards.
\<close>

theorem other_account_untouched:
  assumes "cmd_account_id c \<noteq> b"
  shows "rebuild_aggregate b (event_store (snd (execute_command c cm))) =
           rebuild_aggregate b (event_store cm)
       \<and> get_snapshot b (event_store (snd (execute_command c cm))) = get_snapshot b (event_store cm)
       \<and> query_entity b (entity_store (snd (execute_command c cm))) = query_entity b (entity_store cm)
       \<and> rebuild_aggregate b (event_store (snd (undo_command g c cm))) =
           rebuild_aggregate b (event_store cm)
       \<and> get_snapshot b (event_store (snd (undo_command g c cm))) = get_snapshot b (event_store cm)
       \<and> query_entity b (entity_store (snd (undo_command g c cm))) = query_entity b (entity_store cm)"
proof -
  have ex: "rebuild_aggregate b (event_store (snd (execute_command c cm))) =
              rebuild_aggregate b (event_store cm)
       \<and> get_snapshot b (event_store (snd (execute_command c cm))) = get_snapshot b (event_store cm)
       \<and> query_entity b (entity_store (snd (execute_command c cm))) = query_entity b (entity_store cm)"
  proof (cases "is_withdrawal c \<and>
                balance (rebuild_aggregate (cmd_account_id c) (event_store cm)) < cmd_amount c")
    case True
    then show ?thesis by (simp add: execute_command_rejected)
  next
    case False
    then show ?thesis using assms
      by (simp add: execute_command_accepted rebuild_execute_other get_snapshot_execute
            accounts_update_entity_other)
  qed
  have un: "rebuild_aggregate b (event_store (snd (undo_command g c cm))) =
              rebuild_aggregate b (event_store cm)
       \<and> get_snapshot b (event_store (snd (undo_command g c cm))) = get_snapshot b (event_store cm)
       \<and> query_entity b (entity_store (snd (undo_command g c cm))) = query_entity b (entity_store cm)"
  proof (cases g)
    case None
    then show ?thesis using assms
      by (simp add: undo_command_unbound rebuild_undo_other get_snapshot_undo)
  next
    case (Some acc)
    then show ?thesis using assms
      by (simp add: undo_command_bound rebuild_undo_other get_snapshot_undo
            accounts_update_entity_other)
  qed
  from ex un show ?thesis by simp
qed

theorem other_account_untouched_witness:
  "cmd_account_id (WithdrawalCommand 2 30) \<noteq> 1
   \<and> rebuild_aggregate 1 (event_store (snd (undo_command None (WithdrawalCommand 2 30) after_deposit))) =
       rebuild_aggregate 1 (event_store after_deposit)
   \<and> query_entity 1 (entity_store (snd (execute_command (WithdrawalCommand 2 30) after_deposit))) =
       Some \<lparr>ent_account_id = 1, ent_balance = 150, ent_version = 1\<rparr>
   \<and> query_entity 1 (entity_store (snd (undo_command None (WithdrawalCommand 2 30) after_deposit))) =
       Some \<lparr>ent_account_id = 1, ent_balance = 150, ent_version = 1\<rparr>"
proof -
  have ne: "cmd_account_id (WithdrawalCommand 2 30) \<noteq> 1" by simp
  have ent: "query_entity 1 (entity_store after_deposit) =
               Some \<lparr>ent_account_id = 1, ent_balance = 150, ent_version = 1\<rparr>"
    by (simp add: after_deposit_eq query_entity_def)
  from other_account_untouched [OF ne, of after_deposit None] ne ent show ?thesis by simp
qed

end
